theory Spec2Isabelle
  imports Complex_Main "HOL-Library.AList"
begin

section \<open>Python values\<close>

text \<open>
  The suite works on what \<^verbatim>\<open>response.json()\<close> returns and on keyword arguments: Python
  objects built from \<^verbatim>\<open>None\<close>, \<^verbatim>\<open>bool\<close>, \<^verbatim>\<open>int\<close>, \<^verbatim>\<open>float\<close>, \<^verbatim>\<open>str\<close>, \<^verbatim>\<open>list\<close> and
  \<^verbatim>\<open>dict\<close> with string keys. A finite float is kept as the rational it denotes (no float
  arithmetic is performed anywhere, only comparisons with integer constants); a dict is
  an association list in insertion order, read with \<open>map_of\<close>.
\<close>

datatype pyfloat = Finite rat | PosInf | NegInf | NaN

datatype pyval =
    PNone
  | PBool bool
  | PInt int
  | PFloat pyfloat
  | PStr string
  | PList "pyval list"
  | PDict "(string \<times> pyval) list"

text \<open>Every \<^verbatim>\<open>raise\<close> of the modelled code is a value of this type.\<close>

datatype py_error =
    AssertionError string
  | KeyError string
  | IndexError
  | TypeError
  | AttributeError
  | ValueError
  | Failed string

definition bind :: "py_error + 'a \<Rightarrow> ('a \<Rightarrow> py_error + 'b) \<Rightarrow> py_error + 'b" where
  "bind m f = (case m of Inl e \<Rightarrow> Inl e | Inr a \<Rightarrow> f a)"

text \<open>\<^verbatim>\<open>t[key]\<close> for a string key: only a dict can be subscripted by a string.\<close>

definition subscript :: "pyval \<Rightarrow> string \<Rightarrow> py_error + pyval" where
  "subscript t k =
     (case t of
        PDict d \<Rightarrow> (case map_of d k of None \<Rightarrow> Inl (KeyError k) | Some v \<Rightarrow> Inr v)
      | _ \<Rightarrow> Inl TypeError)"

text \<open>\<^verbatim>\<open>s.replace(old, new)\<close> for a one-character \<open>old\<close>: every occurrence is replaced.\<close>

fun str_replace :: "char \<Rightarrow> string \<Rightarrow> string \<Rightarrow> string" where
  "str_replace old new [] = []"
| "str_replace old new (c # cs) =
     (if c = old then new @ str_replace old new cs else c # str_replace old new cs)"


section \<open>utils/custom\_logger.py\<close>

text \<open>
  The root logger: a level, the levels of its handlers, and what the stream handlers have
  written to standard output. \<^verbatim>\<open>customLogger\<close> sets the logger to INFO and adds one
  stream handler at INFO.
\<close>

definition INFO :: nat where "INFO = 20"
definition WARNING :: nat where "WARNING = 30"
definition ERROR :: nat where "ERROR = 40"

record logger =
  logger_level :: nat
  handler_levels :: "nat list"
  stdout :: "string list"

definition root_logger :: logger where
  "root_logger = \<lparr>logger_level = WARNING, handler_levels = [], stdout = []\<rparr>"

definition customLogger :: "logger \<Rightarrow> logger" where
  "customLogger lg = lg\<lparr>logger_level := INFO, handler_levels := handler_levels lg @ [INFO]\<rparr>"

definition emit :: "nat \<Rightarrow> string \<Rightarrow> logger \<Rightarrow> logger" where
  "emit lvl msg lg =
     (if logger_level lg \<le> lvl
      then lg\<lparr>stdout := stdout lg @ map (\<lambda>h. msg) (filter (\<lambda>h. h \<le> lvl) (handler_levels lg))\<rparr>
      else lg)"

definition log_error :: "string \<Rightarrow> logger \<Rightarrow> logger" where
  "log_error msg lg = emit ERROR msg lg"

definition log_info :: "string \<Rightarrow> logger \<Rightarrow> logger" where
  "log_info msg lg = emit INFO msg lg"

text \<open>The module-level \<^verbatim>\<open>log = cl.customLogger()\<close>.\<close>

definition log' :: logger where
  "log' = customLogger root_logger"


section \<open>validate\_transaction\_ordering\<close>

text \<open>
  \<^verbatim>\<open>datetime\<close> values: a naive one is a wall-clock microsecond count, an aware one the
  microsecond count of its UTC instant. Comparing a naive with an aware one raises
  \<^verbatim>\<open>TypeError\<close>. The parser \<^verbatim>\<open>datetime.fromisoformat\<close> belongs to the standard library and
  is a parameter of the model: \<open>None\<close> is its \<^verbatim>\<open>ValueError\<close>.
\<close>

datatype datetime = Naive int | Aware int

fun dt_ge :: "datetime \<Rightarrow> datetime \<Rightarrow> py_error + bool" where
  "dt_ge (Naive a) (Naive b) = Inr (a \<ge> b)"
| "dt_ge (Aware a) (Aware b) = Inr (a \<ge> b)"
| "dt_ge _ _ = Inl TypeError"

type_synonym iso_parser = "string \<Rightarrow> datetime option"

text \<open>\<^verbatim>\<open>[t for t in transactions if t['status'] == s]\<close>\<close>

fun select_status :: "string \<Rightarrow> pyval list \<Rightarrow> py_error + pyval list" where
  "select_status s [] = Inr []"
| "select_status s (t # ts) =
     bind (subscript t ''status'') (\<lambda>v.
     bind (select_status s ts) (\<lambda>r.
     Inr (if v = PStr s then t # r else r)))"

text \<open>
  \<^verbatim>\<open>for i in range(len(pending)): assert transactions[i]['status'] == 'Pending'\<close>,
  the loop over the indices it is given.
\<close>

fun placement_check :: "pyval list \<Rightarrow> nat list \<Rightarrow> py_error + unit" where
  "placement_check transactions [] = Inr ()"
| "placement_check transactions (i # is) =
     (if i < length transactions
      then bind (subscript (transactions ! i) ''status'') (\<lambda>v.
           if v = PStr ''Pending'' then placement_check transactions is
           else Inl (AssertionError []))
      else Inl IndexError)"

text \<open>
  \<^verbatim>\<open>datetime.fromisoformat(group[i]['timestamp'].replace('Z', '+00:00'))\<close>: only a
  \<^verbatim>\<open>str\<close> has \<^verbatim>\<open>replace\<close>.
\<close>

definition parse_timestamp :: "iso_parser \<Rightarrow> pyval list \<Rightarrow> nat \<Rightarrow> py_error + datetime" where
  "parse_timestamp fromisoformat group' i =
     (if i < length group'
      then bind (subscript (group' ! i) ''timestamp'') (\<lambda>v.
           case v of
             PStr s \<Rightarrow> (case fromisoformat (str_replace CHR ''Z'' ''+00:00'' s) of
                          None \<Rightarrow> Inl ValueError
                        | Some t \<Rightarrow> Inr t)
           | _ \<Rightarrow> Inl AttributeError)
      else Inl IndexError)"

text \<open>The inner loop over one group: \<^verbatim>\<open>for i in range(len(group) - 1)\<close>.\<close>

fun descending_check :: "iso_parser \<Rightarrow> pyval list \<Rightarrow> nat list \<Rightarrow> py_error + unit" where
  "descending_check fromisoformat group' [] = Inr ()"
| "descending_check fromisoformat group' (i # is) =
     bind (parse_timestamp fromisoformat group' i) (\<lambda>t1.
     bind (parse_timestamp fromisoformat group' (i + 1)) (\<lambda>t2.
     bind (dt_ge t1 t2) (\<lambda>ok.
     if ok then descending_check fromisoformat group' is
     else Inl (AssertionError []))))"

text \<open>
  The body of the \<^verbatim>\<open>try\<close>. \<^verbatim>\<open>range(len(group) - 1)\<close> is empty for an empty group, as
  \<open>[0..<0 - 1]\<close> is.
\<close>

definition ordering_body :: "iso_parser \<Rightarrow> pyval list \<Rightarrow> py_error + unit" where
  "ordering_body fromisoformat transactions =
     (if length transactions \<le> 1 then Inr ()
      else
        bind (select_status ''Pending'' transactions) (\<lambda>pending.
        bind (select_status ''Booked'' transactions) (\<lambda>booked.
        bind (placement_check transactions [0..<length pending]) (\<lambda>_.
        bind (descending_check fromisoformat pending [0..<length pending - 1]) (\<lambda>_.
        descending_check fromisoformat booked [0..<length booked - 1])))))"

text \<open>The three bytes of U+274C in UTF-8, the mark that starts the failure line.\<close>

definition cross_mark :: string where
  "cross_mark = [CHR 0xE2, CHR 0x9D, CHR 0x8C]"

text \<open>
  The function with its handler: \<^verbatim>\<open>except AssertionError as e\<close> logs and re-raises, any
  other exception passes through. The result is what the call raises or returns, the
  logger afterwards, and the list \<^verbatim>\<open>transactions\<close> refers to afterwards.
\<close>

definition validate_transaction_ordering ::
  "iso_parser \<Rightarrow> logger \<Rightarrow> pyval list \<Rightarrow> (py_error + unit) \<times> logger \<times> pyval list" where
  "validate_transaction_ordering fromisoformat lg transactions =
     (case ordering_body fromisoformat transactions of
        Inl (AssertionError e) \<Rightarrow>
          (Inl (AssertionError e),
           log_error (cross_mark @ '' Assertion failed '' @ e) lg,
           transactions)
      | r \<Rightarrow> (r, lg, transactions))"


section \<open>make\_request\<close>

text \<open>\<^verbatim>\<open>str(value).lower()\<close> for a \<^verbatim>\<open>bool\<close>.\<close>

definition str_bool :: "bool \<Rightarrow> string" where
  "str_bool b = (if b then ''True'' else ''False'')"

definition lower_char :: "char \<Rightarrow> char" where
  "lower_char c =
     (let n = (of_char c :: nat) in if 65 \<le> n \<and> n \<le> 90 then char_of (n + 32) else c)"

definition lower :: "string \<Rightarrow> string" where
  "lower s = map lower_char s"

text \<open>
  \<^verbatim>\<open>for key, value in params.items(): if isinstance(value, bool): params[key] = ...\<close>.
  The first argument is what is left of the iteration, the second the dict being updated;
  \<open>AList.update\<close> rebinds a key in place, as a dict does.
\<close>

fun normalise_loop :: "(string \<times> pyval) list \<Rightarrow> (string \<times> pyval) list \<Rightarrow> (string \<times> pyval) list" where
  "normalise_loop [] params = params"
| "normalise_loop ((key, value) # items) params =
     normalise_loop items
       (case value of
          PBool b \<Rightarrow> AList.update key (PStr (lower (str_bool b))) params
        | _ \<Rightarrow> params)"

text \<open>
  The call \<^verbatim>\<open>requests.get(BASE_URL, headers=HEADERS, params=params)\<close> that ends
  \<^verbatim>\<open>make_request\<close>, as its arguments. \<^verbatim>\<open>BASE_URL\<close> and the \<^verbatim>\<open>host\<close> header come from the
  environment (\<^verbatim>\<open>os.getenv\<close> gives \<^verbatim>\<open>None\<close> for an unset variable). The customer identifier is
  a \<^verbatim>\<open>str\<close> at every call site.
\<close>

record request =
  url :: "string option"
  headers :: "(string \<times> string option) list"
  query :: "(string \<times> pyval) list"

definition make_request ::
  "string option \<Rightarrow> string option \<Rightarrow> string \<Rightarrow> (string \<times> pyval) list \<Rightarrow> request" where
  "make_request BASE_URL host customer_id params =
     (let params1 = AList.update ''customerId'' (PStr customer_id) params;
          params2 = normalise_loop params1 params1
      in \<lparr>url = BASE_URL, headers = [(''host'', host)], query = params2\<rparr>)"


section \<open>transaction\_schema and validate\_transaction\_structure\<close>

text \<open>
  The keywords the schema uses, with the meaning the JSON Schema validator gives them:
  \<^verbatim>\<open>type\<close>, \<^verbatim>\<open>enum\<close>, \<^verbatim>\<open>minimum\<close>, \<^verbatim>\<open>maximum\<close> on a property; \<^verbatim>\<open>type\<close>, \<^verbatim>\<open>required\<close>,
  \<^verbatim>\<open>properties\<close>, \<^verbatim>\<open>additionalProperties\<close> on the record. \<^verbatim>\<open>format\<close> is carried but not
  checked: \<^verbatim>\<open>validate\<close> is called without a format checker.
\<close>

datatype json_type = T_string | T_number | T_integer | T_boolean | T_null | T_array | T_object

record subschema =
  s_type :: "json_type list"
  s_format :: "string option"
  s_enum :: "pyval list option"
  s_minimum :: "int option"
  s_maximum :: "int option"

record object_schema =
  o_type :: json_type
  o_required :: "string list"
  o_properties :: "(string \<times> subschema) list"
  o_additionalProperties :: bool

definition typed :: "json_type list \<Rightarrow> subschema" where
  "typed ts = \<lparr>s_type = ts, s_format = None, s_enum = None, s_minimum = None, s_maximum = None\<rparr>"

definition transaction_schema :: object_schema where
  "transaction_schema =
     \<lparr>o_type = T_object,
      o_required =
        [''transactionId'', ''amount'', ''currency'', ''merchantName'', ''timestamp'',
         ''type'', ''subType'', ''status'', ''categoryId'', ''description''],
      o_properties =
        [(''transactionId'', typed [T_string]),
         (''amount'', typed [T_number]),
         (''currency'', typed [T_string]),
         (''merchantName'', typed [T_string, T_null]),
         (''timestamp'', (typed [T_string])\<lparr>s_format := Some ''date-time''\<rparr>),
         (''type'', (typed [T_string])\<lparr>s_enum := Some [PStr ''Debit'', PStr ''Credit'']\<rparr>),
         (''subType'', typed [T_string]),
         (''status'', (typed [T_string])\<lparr>s_enum := Some [PStr ''Pending'', PStr ''Booked'']\<rparr>),
         (''categoryId'', (typed [T_integer])\<lparr>s_minimum := Some 1, s_maximum := Some 20\<rparr>),
         (''description'', typed [T_string])],
      o_additionalProperties = False\<rparr>"

text \<open>
  The validator's type test. A \<^verbatim>\<open>bool\<close> is neither a number nor an integer; a float is an
  integer when its value is whole.
\<close>

fun float_is_integer :: "pyfloat \<Rightarrow> bool" where
  "float_is_integer (Finite r) = (of_int \<lfloor>r\<rfloor> = r)"
| "float_is_integer _ = False"

fun is_type :: "pyval \<Rightarrow> json_type \<Rightarrow> bool" where
  "is_type v T_string = (case v of PStr s \<Rightarrow> True | _ \<Rightarrow> False)"
| "is_type v T_number = (case v of PInt i \<Rightarrow> True | PFloat f \<Rightarrow> True | _ \<Rightarrow> False)"
| "is_type v T_integer = (case v of PInt i \<Rightarrow> True | PFloat f \<Rightarrow> float_is_integer f | _ \<Rightarrow> False)"
| "is_type v T_boolean = (case v of PBool b \<Rightarrow> True | _ \<Rightarrow> False)"
| "is_type v T_null = (case v of PNone \<Rightarrow> True | _ \<Rightarrow> False)"
| "is_type v T_array = (case v of PList xs \<Rightarrow> True | _ \<Rightarrow> False)"
| "is_type v T_object = (case v of PDict d \<Rightarrow> True | _ \<Rightarrow> False)"

text \<open>\<^verbatim>\<open>instance < minimum\<close> and \<^verbatim>\<open>instance > maximum\<close> on a number; false for NaN.\<close>

fun num_lt :: "pyval \<Rightarrow> int \<Rightarrow> bool" where
  "num_lt (PInt i) m = (i < m)"
| "num_lt (PFloat (Finite r)) m = (r < of_int m)"
| "num_lt (PFloat NegInf) m = True"
| "num_lt _ m = False"

fun num_gt :: "pyval \<Rightarrow> int \<Rightarrow> bool" where
  "num_gt (PInt i) m = (i > m)"
| "num_gt (PFloat (Finite r)) m = (r > of_int m)"
| "num_gt (PFloat PosInf) m = True"
| "num_gt _ m = False"

datatype violation =
    WrongType "string list"
  | MissingRequired string
  | Additional "string list"
  | NotInEnum "string list"
  | BelowMinimum "string list"
  | AboveMaximum "string list"

definition subschema_errors :: "string list \<Rightarrow> subschema \<Rightarrow> pyval \<Rightarrow> violation list" where
  "subschema_errors path s v =
     (if list_ex (is_type v) (s_type s) then [] else [WrongType path]) @
     (case s_enum s of
        None \<Rightarrow> []
      | Some es \<Rightarrow> if List.member es v then [] else [NotInEnum path]) @
     (case s_minimum s of
        None \<Rightarrow> []
      | Some m \<Rightarrow> if is_type v T_number \<and> num_lt v m then [BelowMinimum path] else []) @
     (case s_maximum s of
        None \<Rightarrow> []
      | Some m \<Rightarrow> if is_type v T_number \<and> num_gt v m then [AboveMaximum path] else [])"

text \<open>
  Every violation the validator finds, keyword by keyword. \<^verbatim>\<open>required\<close>, \<^verbatim>\<open>properties\<close> and
  \<^verbatim>\<open>additionalProperties\<close> apply to objects only.
\<close>

definition iter_errors :: "object_schema \<Rightarrow> pyval \<Rightarrow> violation list" where
  "iter_errors schema instance =
     (if is_type instance (o_type schema) then [] else [WrongType []]) @
     (case instance of
        PDict d \<Rightarrow>
          map MissingRequired (filter (\<lambda>p. map_of d p = None) (o_required schema)) @
          concat (map (\<lambda>(p, s). case map_of d p of
                                   None \<Rightarrow> []
                                 | Some v \<Rightarrow> subschema_errors [p] s v)
                      (o_properties schema)) @
          (let extras = filter (\<lambda>k. map_of (o_properties schema) k = None) (map fst d)
           in if \<not> o_additionalProperties schema \<and> extras \<noteq> []
              then [Additional extras] else [])
      | _ \<Rightarrow> [])"

text \<open>\<^verbatim>\<open>validate(instance, schema)\<close> raises \<^verbatim>\<open>ValidationError\<close> when there is a violation.\<close>

definition validate :: "pyval \<Rightarrow> object_schema \<Rightarrow> violation list + unit" where
  "validate instance schema =
     (case iter_errors schema instance of [] \<Rightarrow> Inr () | e # es \<Rightarrow> Inl (e # es))"

text \<open>
  The handler logs the error's message and calls \<^verbatim>\<open>pytest.fail\<close>, which raises \<^verbatim>\<open>Failed\<close>.
  Which violation the library reports, and in which words, is the parameter \<open>message\<close>.
\<close>

definition validate_transaction_structure ::
  "(violation list \<Rightarrow> string) \<Rightarrow> logger \<Rightarrow> pyval \<Rightarrow> (py_error + unit) \<times> logger" where
  "validate_transaction_structure message lg transaction =
     (case validate transaction transaction_schema of
        Inr u \<Rightarrow> (Inr (), lg)
      | Inl es \<Rightarrow>
          (Inl (Failed (''Schema validation error: '' @ message es)),
           log_error (''Schema validation failed: '' @ message es) lg))"

text \<open>
  A parser instance for the evaluated examples. It knows three timestamps of the suite's
  date range, each with the instant \<^verbatim>\<open>datetime.fromisoformat\<close> gives it (microseconds
  since the Unix epoch), and rejects every other string.
\<close>

definition sample_fromisoformat :: iso_parser where
  "sample_fromisoformat =
     map_of
       [(''2025-06-05T08:30:00+00:00'', Aware 1749112200000000),
        (''2025-06-04T10:00:00+00:00'', Aware 1749031200000000),
        (''2025-06-03T10:00:00+00:00'', Aware 1748944800000000)]"

text \<open>
  Records for the evaluated examples: an entry with the two fields the ordering check
  reads, and a record with the ten fields of the schema.
\<close>

definition sample_entry :: "string \<Rightarrow> string \<Rightarrow> pyval" where
  "sample_entry status timestamp =
     PDict [(''status'', PStr status), (''timestamp'', PStr timestamp)]"

definition sample_fields :: "(string \<times> pyval) list" where
  "sample_fields =
     [(''transactionId'', PStr ''tx-0001''),
      (''amount'', PFloat (Finite (- 25 / 2))),
      (''currency'', PStr ''GBP''),
      (''merchantName'', PNone),
      (''timestamp'', PStr ''2025-06-05T08:30:00Z''),
      (''type'', PStr ''Debit''),
      (''subType'', PStr ''Card''),
      (''status'', PStr ''Booked''),
      (''categoryId'', PInt 11)]"

definition sample_transaction :: pyval where
  "sample_transaction = PDict (sample_fields @ [(''description'', PStr ''Coffee'')])"


section \<open>Auxiliary facts\<close>

subsection \<open>Lists: a predicate holding exactly on a prefix\<close>

lemma no_inversion_Cons:
  "(\<exists>i j. i < j \<and> j < length (x # xs) \<and> \<not> P ((x # xs) ! i) \<and> P ((x # xs) ! j)) \<longleftrightarrow>
   (\<not> P x \<and> (\<exists>j < length xs. P (xs ! j))) \<or>
   (\<exists>i j. i < j \<and> j < length xs \<and> \<not> P (xs ! i) \<and> P (xs ! j))"
  (is "?L \<longleftrightarrow> ?A \<or> ?B")
proof
  assume ?L
  then obtain i j where ij: "i < j" "j < length (x # xs)" "\<not> P ((x # xs) ! i)" "P ((x # xs) ! j)"
    by blast
  from ij(1) obtain j' where j': "j = Suc j'" by (cases j) auto
  show "?A \<or> ?B"
  proof (cases i)
    case 0
    with ij j' show ?thesis by auto
  next
    case (Suc i')
    with ij j' have "i' < j' \<and> j' < length xs \<and> \<not> P (xs ! i') \<and> P (xs ! j')" by auto
    then show ?thesis by blast
  qed
next
  assume "?A \<or> ?B"
  then show ?L
  proof
    assume ?A
    then obtain j where "j < length xs" "P (xs ! j)" "\<not> P x" by blast
    then have "0 < Suc j \<and> Suc j < length (x # xs) \<and> \<not> P ((x # xs) ! 0) \<and> P ((x # xs) ! Suc j)"
      by simp
    then show ?L by blast
  next
    assume ?B
    then obtain i j where "i < j" "j < length xs" "\<not> P (xs ! i)" "P (xs ! j)" by blast
    then have "Suc i < Suc j \<and> Suc j < length (x # xs) \<and> \<not> P ((x # xs) ! Suc i) \<and> P ((x # xs) ! Suc j)"
      by simp
    then show ?L by blast
  qed
qed

lemma filter_empty_nth: "filter P xs = [] \<longleftrightarrow> \<not> (\<exists>j < length xs. P (xs ! j))"
  by (simp add: filter_empty_conv) (metis in_set_conv_nth)

lemma prefix_filter:
  "(\<forall>i < length (filter P xs). P (xs ! i)) \<longleftrightarrow>
   \<not> (\<exists>i j. i < j \<and> j < length xs \<and> \<not> P (xs ! i) \<and> P (xs ! j))"
proof (induction xs)
  case Nil
  show ?case by simp
next
  case (Cons x xs)
  show ?case
  proof (cases "P x")
    case True
    then have "(\<forall>i < length (filter P (x # xs)). P ((x # xs) ! i)) \<longleftrightarrow>
               (\<forall>i < length (filter P xs). P (xs ! i))"
      by (simp add: All_less_Suc2)
    with True Cons.IH show ?thesis
      unfolding no_inversion_Cons by simp
  next
    case False
    show ?thesis
    proof (cases "filter P xs = []")
      case True
      then have none: "\<not> (\<exists>j < length xs. P (xs ! j))" by (simp add: filter_empty_nth)
      then have "\<not> (\<exists>i j. i < j \<and> j < length xs \<and> \<not> P (xs ! i) \<and> P (xs ! j))" by blast
      with False True none show ?thesis
        unfolding no_inversion_Cons by simp
    next
      case nonempty: False
      then have ex: "\<exists>j < length xs. P (xs ! j)" by (simp add: filter_empty_nth)
      from nonempty have "0 < length (filter P (x # xs))" using False by simp
      then have "\<not> (\<forall>i < length (filter P (x # xs)). P ((x # xs) ! i))"
        using False by (metis nth_Cons_0)
      with False ex show ?thesis
        unfolding no_inversion_Cons by blast
    qed
  qed
qed

lemma no_inversion_count:
  "\<not> (\<exists>i j. i < j \<and> j < length xs \<and> \<not> P (xs ! i) \<and> P (xs ! j)) \<Longrightarrow>
   i < length xs \<Longrightarrow> P (xs ! i) \<longleftrightarrow> i < length (filter P xs)"
proof (induction xs arbitrary: i)
  case Nil
  then show ?case by simp
next
  case (Cons x xs)
  from Cons.prems(1) have tail: "\<not> (\<exists>i j. i < j \<and> j < length xs \<and> \<not> P (xs ! i) \<and> P (xs ! j))"
    and head: "P x \<or> \<not> (\<exists>j < length xs. P (xs ! j))"
    unfolding no_inversion_Cons by blast+
  show ?case
  proof (cases "P x")
    case True
    show ?thesis
    proof (cases i)
      case 0
      with True show ?thesis by simp
    next
      case (Suc i')
      with Cons.prems(2) have "i' < length xs" by simp
      from Cons.IH [OF tail this] True Suc show ?thesis by simp
    qed
  next
    case False
    with head have none: "\<not> (\<exists>j < length xs. P (xs ! j))" by blast
    then have "filter P xs = []" by (simp add: filter_empty_nth)
    with False have len: "length (filter P (x # xs)) = 0" by simp
    have "\<not> P ((x # xs) ! i)"
    proof (cases i)
      case 0
      with False show ?thesis by simp
    next
      case (Suc i')
      with Cons.prems(2) none show ?thesis by simp
    qed
    with len show ?thesis by simp
  qed
qed

lemma prefix_split:
  "(\<exists>k. \<forall>i < length xs. P (xs ! i) \<longleftrightarrow> i < k) \<longleftrightarrow>
   \<not> (\<exists>i j. i < j \<and> j < length xs \<and> \<not> P (xs ! i) \<and> P (xs ! j))"
  (is "?L \<longleftrightarrow> \<not> ?R")
proof
  assume ?L
  then obtain k where k: "\<forall>i < length xs. P (xs ! i) \<longleftrightarrow> i < k" by blast
  show "\<not> ?R"
  proof
    assume ?R
    then obtain i j where ij: "i < j" "j < length xs" "\<not> P (xs ! i)" "P (xs ! j)" by blast
    then have "j < k" "\<not> i < k" using k by auto
    with ij(1) show False by simp
  qed
next
  assume nR: "\<not> ?R"
  have "\<forall>i < length xs. P (xs ! i) \<longleftrightarrow> i < length (filter P xs)"
    using no_inversion_count [OF nR] by blast
  then show ?L by blast
qed

subsection \<open>The error monad and the iterations of the ordering check\<close>

lemma bind_Inr_iff: "bind m f = Inr y \<longleftrightarrow> (\<exists>a. m = Inr a \<and> f a = Inr y)"
  by (cases m) (simp_all add: bind_def)

lemma select_status_Inr:
  "select_status s ts = Inr r \<Longrightarrow>
     r = filter (\<lambda>t. subscript t ''status'' = Inr (PStr s)) ts"
  by (induction ts arbitrary: r) (auto simp: bind_Inr_iff)

lemma select_status_total:
  "\<forall>t \<in> set ts. \<exists>v. subscript t ''status'' = Inr v \<Longrightarrow>
     select_status s ts = Inr (filter (\<lambda>t. subscript t ''status'' = Inr (PStr s)) ts)"
  by (induction ts) (auto simp: bind_def)

lemma placement_check_Inr:
  "placement_check txs is = Inr () \<longleftrightarrow>
     (\<forall>i \<in> set is. i < length txs \<and> subscript (txs ! i) ''status'' = Inr (PStr ''Pending''))"
  by (induction "is") (auto simp: bind_Inr_iff)

lemma dt_ge_True:
  "dt_ge t1 t2 = Inr True \<longleftrightarrow>
     (\<exists>a b. b \<le> a \<and> (t1 = Naive a \<and> t2 = Naive b \<or> t1 = Aware a \<and> t2 = Aware b))"
  by (cases t1; cases t2) auto

lemma parse_timestamp_Inr:
  "parse_timestamp p g i = Inr t \<longleftrightarrow>
     i < length g \<and>
     (\<exists>s. subscript (g ! i) ''timestamp'' = Inr (PStr s) \<and>
          p (str_replace CHR ''Z'' ''+00:00'' s) = Some t)"
proof (cases "i < length g")
  case False
  then show ?thesis by (simp add: parse_timestamp_def)
next
  case True
  show ?thesis
  proof (cases "subscript (g ! i) ''timestamp''")
    case (Inl e)
    with True show ?thesis by (simp add: parse_timestamp_def bind_def)
  next
    case (Inr v)
    with True show ?thesis
      by (cases v) (simp_all add: parse_timestamp_def bind_def split: option.splits)
  qed
qed

lemma descending_check_Inr:
  "descending_check p g is = Inr () \<longleftrightarrow>
     (\<forall>i \<in> set is. \<exists>t1 t2. parse_timestamp p g i = Inr t1 \<and>
                     parse_timestamp p g (i + 1) = Inr t2 \<and> dt_ge t1 t2 = Inr True)"
  by (induction "is") (auto simp: bind_Inr_iff)

lemma validate_transaction_ordering_fst:
  "fst (validate_transaction_ordering p lg txs) = ordering_body p txs"
  by (simp add: validate_transaction_ordering_def split: sum.splits py_error.splits)

lemma log_error_custom:
  "log_error msg (log'\<lparr>stdout := out\<rparr>) = log'\<lparr>stdout := out @ [msg]\<rparr>"
  by (simp add: log_error_def emit_def log'_def customLogger_def root_logger_def
      INFO_def ERROR_def WARNING_def)

subsection \<open>The parameter dict of a request\<close>

lemma lower_str_bool: "lower (str_bool b) = (if b then ''true'' else ''false'')"
  by (cases b) (simp_all add: str_bool_def, code_simp+)

lemma normalise_loop_map_of:
  "distinct (map fst items) \<Longrightarrow>
   map_of (normalise_loop items d) k =
     (case map_of items k of
        Some (PBool b) \<Rightarrow> Some (PStr (lower (str_bool b)))
      | _ \<Rightarrow> map_of d k)"
proof (induction items arbitrary: d)
  case Nil
  show ?case by simp
next
  case (Cons item items)
  obtain key val where item: "item = (key, val)" by (cases item)
  from Cons.prems item have dist: "distinct (map fst items)" and fresh: "map_of items key = None"
    by (auto simp: map_of_eq_None_iff)
  have IH: "\<And>d'. map_of (normalise_loop items d') k =
     (case map_of items k of
        Some (PBool b) \<Rightarrow> Some (PStr (lower (str_bool b)))
      | _ \<Rightarrow> map_of d' k)"
    by (rule Cons.IH [OF dist])
  show ?case
    using fresh unfolding item
    by (cases val) (auto simp: IH update_conv' split: option.splits pyval.splits)
qed

lemma make_request_query:
  assumes "distinct (map fst params)"
  shows "map_of (query (make_request BASE_URL host customer_id params)) k =
           (case ((map_of params)(''customerId'' \<mapsto> PStr customer_id)) k of
              Some (PBool b) \<Rightarrow> Some (PStr (if b then ''true'' else ''false''))
            | r \<Rightarrow> r)"
proof -
  let ?p1 = "AList.update ''customerId'' (PStr customer_id) params"
  from assms have "distinct (map fst ?p1)" by (simp add: distinct_update)
  from normalise_loop_map_of [OF this, of ?p1 k]
  show ?thesis
    by (simp add: make_request_def Let_def update_conv' lower_str_bool
        split: option.splits pyval.splits)
qed


section \<open>The ordering check\<close>

text \<open>
  C1. On a list whose elements all have status Pending or Booked, the placement check
  succeeds exactly when no Booked element stands at an earlier index than a Pending one,
  which is to say exactly when the Pending elements are a prefix of the list.
\<close>

theorem placement_check_pending_prefix:
  assumes "\<forall>t \<in> set transactions.
             subscript t ''status'' = Inr (PStr ''Pending'') \<or>
             subscript t ''status'' = Inr (PStr ''Booked'')"
  shows "\<exists>pending.
           select_status ''Pending'' transactions = Inr pending \<and>
           (placement_check transactions [0..<length pending] = Inr () \<longleftrightarrow>
              \<not> (\<exists>i j. i < j \<and> j < length transactions \<and>
                     subscript (transactions ! i) ''status'' = Inr (PStr ''Booked'') \<and>
                     subscript (transactions ! j) ''status'' = Inr (PStr ''Pending''))) \<and>
           (placement_check transactions [0..<length pending] = Inr () \<longleftrightarrow>
              (\<exists>k. \<forall>i < length transactions.
                     subscript (transactions ! i) ''status'' = Inr (PStr ''Pending'') \<longleftrightarrow> i < k))"
proof -
  let ?P = "\<lambda>t. subscript t ''status'' = Inr (PStr ''Pending'')"
  let ?pending = "filter ?P transactions"
  from assms have "\<forall>t \<in> set transactions. \<exists>v. subscript t ''status'' = Inr v" by blast
  then have sel: "select_status ''Pending'' transactions = Inr ?pending"
    by (rule select_status_total)
  have booked: "subscript (transactions ! i) ''status'' = Inr (PStr ''Booked'') \<longleftrightarrow>
                \<not> ?P (transactions ! i)" if "i < length transactions" for i
  proof -
    from that have "transactions ! i \<in> set transactions" by simp
    with assms show ?thesis by fastforce
  qed
  have inside: "i < length transactions" if "i < length ?pending" for i
    using that by (rule less_le_trans [OF _ length_filter_le])
  have "placement_check transactions [0..<length ?pending] = Inr () \<longleftrightarrow>
          (\<forall>i < length ?pending. ?P (transactions ! i))"
    unfolding placement_check_Inr using inside by auto
  also have "\<dots> \<longleftrightarrow> \<not> (\<exists>i j. i < j \<and> j < length transactions \<and>
                           \<not> ?P (transactions ! i) \<and> ?P (transactions ! j))"
    by (rule prefix_filter)
  finally have plain: "placement_check transactions [0..<length ?pending] = Inr () \<longleftrightarrow>
      \<not> (\<exists>i j. i < j \<and> j < length transactions \<and>
             \<not> ?P (transactions ! i) \<and> ?P (transactions ! j))" .
  have inv: "(\<exists>i j. i < j \<and> j < length transactions \<and>
                 \<not> ?P (transactions ! i) \<and> ?P (transactions ! j)) \<longleftrightarrow>
             (\<exists>i j. i < j \<and> j < length transactions \<and>
                 subscript (transactions ! i) ''status'' = Inr (PStr ''Booked'') \<and>
                 ?P (transactions ! j))"
    using booked by (meson less_trans)
  from plain inv have first: "placement_check transactions [0..<length ?pending] = Inr () \<longleftrightarrow>
      \<not> (\<exists>i j. i < j \<and> j < length transactions \<and>
             subscript (transactions ! i) ''status'' = Inr (PStr ''Booked'') \<and>
             ?P (transactions ! j))"
    by simp
  from plain have second: "placement_check transactions [0..<length ?pending] = Inr () \<longleftrightarrow>
      (\<exists>k. \<forall>i < length transactions. ?P (transactions ! i) \<longleftrightarrow> i < k)"
    unfolding prefix_split [where P = ?P and xs = transactions] .
  from sel first second show ?thesis by blast
qed

theorem placement_check_pending_prefix_witness:
  "list_all (\<lambda>t. subscript t ''status'' = Inr (PStr ''Pending'') \<or>
                 subscript t ''status'' = Inr (PStr ''Booked''))
     [sample_entry ''Pending'' ''2025-06-05T08:30:00Z'',
      sample_entry ''Booked'' ''2025-06-04T10:00:00Z'',
      sample_entry ''Pending'' ''2025-06-03T10:00:00Z''] \<and>
   select_status ''Pending''
     [sample_entry ''Pending'' ''2025-06-05T08:30:00Z'',
      sample_entry ''Booked'' ''2025-06-04T10:00:00Z'',
      sample_entry ''Pending'' ''2025-06-03T10:00:00Z''] =
     Inr [sample_entry ''Pending'' ''2025-06-05T08:30:00Z'',
          sample_entry ''Pending'' ''2025-06-03T10:00:00Z''] \<and>
   placement_check
     [sample_entry ''Pending'' ''2025-06-05T08:30:00Z'',
      sample_entry ''Booked'' ''2025-06-04T10:00:00Z'',
      sample_entry ''Pending'' ''2025-06-03T10:00:00Z''] [0..<2] = Inl (AssertionError []) \<and>
   \<not> (\<exists>k. \<forall>i < 3.
          subscript ([sample_entry ''Pending'' ''2025-06-05T08:30:00Z'',
                      sample_entry ''Booked'' ''2025-06-04T10:00:00Z'',
                      sample_entry ''Pending'' ''2025-06-03T10:00:00Z''] ! i) ''status'' =
            Inr (PStr ''Pending'') \<longleftrightarrow> i < k)"
proof -
  let ?txs = "[sample_entry ''Pending'' ''2025-06-05T08:30:00Z'',
               sample_entry ''Booked'' ''2025-06-04T10:00:00Z'',
               sample_entry ''Pending'' ''2025-06-03T10:00:00Z'']"
  have h: "\<forall>t \<in> set ?txs. subscript t ''status'' = Inr (PStr ''Pending'') \<or>
                           subscript t ''status'' = Inr (PStr ''Booked'')"
    by (simp add: sample_entry_def subscript_def)
  have sel: "select_status ''Pending'' ?txs =
               Inr [sample_entry ''Pending'' ''2025-06-05T08:30:00Z'',
                    sample_entry ''Pending'' ''2025-06-03T10:00:00Z'']"
    by (simp add: sample_entry_def subscript_def bind_def)
  have two: "[0..<2] = [0, Suc 0]" by (simp add: upt_rec)
  have pl: "placement_check ?txs [0..<2] = Inl (AssertionError [])"
    by (simp add: two sample_entry_def subscript_def bind_def)
  have l3: "length ?txs = 3" by simp
  from placement_check_pending_prefix [OF h] obtain pending where
    p: "select_status ''Pending'' ?txs = Inr pending"
    and q: "placement_check ?txs [0..<length pending] = Inr () \<longleftrightarrow>
              (\<exists>k. \<forall>i < length ?txs.
                     subscript (?txs ! i) ''status'' = Inr (PStr ''Pending'') \<longleftrightarrow> i < k)"
    by blast
  from p sel have l2: "length pending = 2" by simp
  have ne: "Inl (AssertionError []) \<noteq> (Inr () :: py_error + unit)" by simp
  from q [unfolded l2 l3 pl] ne
  have nq: "\<not> (\<exists>k. \<forall>i < 3.
                    subscript (?txs ! i) ''status'' = Inr (PStr ''Pending'') \<longleftrightarrow> i < k)"
    by blast
  have h': "list_all (\<lambda>t. subscript t ''status'' = Inr (PStr ''Pending'') \<or>
                         subscript t ''status'' = Inr (PStr ''Booked'')) ?txs"
    unfolding list_all_iff by (rule h)
  show ?thesis
    by (rule conjI [OF h' conjI [OF sel conjI [OF pl nq]]])
qed

text \<open>
  C2. When the check succeeds on a list of at least two elements, any two consecutive
  elements of the Pending subsequence, and of the Booked subsequence, carry timestamp
  strings that the parser accepts once every \<^verbatim>\<open>Z\<close> is replaced by \<^verbatim>\<open>+00:00\<close>, and the
  first instant is not earlier than the second.
\<close>

theorem ordering_success_descending:
  assumes "2 \<le> length transactions"
    and "fst (validate_transaction_ordering fromisoformat lg transactions) = Inr ()"
    and "st = ''Pending'' \<or> st = ''Booked''"
    and "group' = filter (\<lambda>t. subscript t ''status'' = Inr (PStr st)) transactions"
    and "Suc i < length group'"
  shows "\<exists>s1 s2 t1 t2.
           subscript (group' ! i) ''timestamp'' = Inr (PStr s1) \<and>
           subscript (group' ! Suc i) ''timestamp'' = Inr (PStr s2) \<and>
           fromisoformat (str_replace CHR ''Z'' ''+00:00'' s1) = Some t1 \<and>
           fromisoformat (str_replace CHR ''Z'' ''+00:00'' s2) = Some t2 \<and>
           dt_ge t1 t2 = Inr True"
proof -
  from assms(2) have body: "ordering_body fromisoformat transactions = Inr ()"
    by (simp add: validate_transaction_ordering_fst)
  with assms(1) obtain pending booked where
    sel: "select_status ''Pending'' transactions = Inr pending"
         "select_status ''Booked'' transactions = Inr booked"
    and chk: "descending_check fromisoformat pending [0..<length pending - 1] = Inr ()"
             "descending_check fromisoformat booked [0..<length booked - 1] = Inr ()"
    by (auto simp: ordering_body_def bind_Inr_iff)
  from sel assms(3,4) have "group' = pending \<or> group' = booked"
    by (auto dest: select_status_Inr)
  with chk have "descending_check fromisoformat group' [0..<length group' - 1] = Inr ()"
    by auto
  moreover from assms(5) have "i \<in> set [0..<length group' - 1]" by auto
  ultimately obtain t1 t2 where
    "parse_timestamp fromisoformat group' i = Inr t1"
    "parse_timestamp fromisoformat group' (i + 1) = Inr t2"
    "dt_ge t1 t2 = Inr True"
    unfolding descending_check_Inr by blast
  then show ?thesis
    unfolding parse_timestamp_Inr by auto
qed

theorem ordering_success_descending_witness:
  "2 \<le> length [sample_entry ''Pending'' ''2025-06-05T08:30:00Z'',
                sample_entry ''Pending'' ''2025-06-04T10:00:00Z'',
                sample_entry ''Booked'' ''2025-06-03T10:00:00Z''] \<and>
   fst (validate_transaction_ordering sample_fromisoformat log'
          [sample_entry ''Pending'' ''2025-06-05T08:30:00Z'',
           sample_entry ''Pending'' ''2025-06-04T10:00:00Z'',
           sample_entry ''Booked'' ''2025-06-03T10:00:00Z'']) = Inr () \<and>
   filter (\<lambda>t. subscript t ''status'' = Inr (PStr ''Pending''))
          [sample_entry ''Pending'' ''2025-06-05T08:30:00Z'',
           sample_entry ''Pending'' ''2025-06-04T10:00:00Z'',
           sample_entry ''Booked'' ''2025-06-03T10:00:00Z''] =
     [sample_entry ''Pending'' ''2025-06-05T08:30:00Z'',
      sample_entry ''Pending'' ''2025-06-04T10:00:00Z''] \<and>
   (\<exists>t1 t2.
      sample_fromisoformat (str_replace CHR ''Z'' ''+00:00'' ''2025-06-05T08:30:00Z'') = Some t1 \<and>
      sample_fromisoformat (str_replace CHR ''Z'' ''+00:00'' ''2025-06-04T10:00:00Z'') = Some t2 \<and>
      dt_ge t1 t2 = Inr True)"
proof -
  let ?a = "sample_entry ''Pending'' ''2025-06-05T08:30:00Z''"
  let ?b = "sample_entry ''Pending'' ''2025-06-04T10:00:00Z''"
  let ?c = "sample_entry ''Booked'' ''2025-06-03T10:00:00Z''"
  have len: "2 \<le> length [?a, ?b, ?c]" by simp
  have two: "[0..<2] = [0, Suc 0]" by (simp add: upt_rec)
  have ok: "fst (validate_transaction_ordering sample_fromisoformat log' [?a, ?b, ?c]) = Inr ()"
    by (simp add: validate_transaction_ordering_fst ordering_body_def bind_def
        sample_entry_def subscript_def two parse_timestamp_def sample_fromisoformat_def)
  have grp: "[?a, ?b] = filter (\<lambda>t. subscript t ''status'' = Inr (PStr ''Pending'')) [?a, ?b, ?c]"
    by (simp add: sample_entry_def subscript_def)
  have st: "''Pending'' = ''Pending'' \<or> ''Pending'' = ''Booked''" by simp
  have i: "Suc 0 < length [?a, ?b]" by simp
  from ordering_success_descending [OF len ok st grp i] len ok grp show ?thesis
    by (auto simp: sample_entry_def subscript_def)
qed

text \<open>
  C6. A list of length 0 or 1 is accepted whatever it holds: the call returns, the logger
  and the list are as before.
\<close>

theorem short_list_accepted:
  "length transactions \<le> 1 \<Longrightarrow>
   validate_transaction_ordering fromisoformat lg transactions = (Inr (), lg, transactions)"
  by (simp add: validate_transaction_ordering_def ordering_body_def)

theorem short_list_accepted_witness:
  "length [PInt 7] \<le> 1 \<and>
   validate_transaction_ordering (\<lambda>s. None) log' [PInt 7] = (Inr (), log', [PInt 7])"
proof -
  have h: "length [PInt 7] \<le> 1" by simp
  from short_list_accepted [OF h, of "\<lambda>s. None" log'] h show ?thesis by simp
qed

text \<open>
  C8. When the body of the check raises an assertion failure, the call raises the same
  assertion failure, the logger has written one more line (the failure mark, the words
  ``Assertion failed'' and the message of the failure), and the list is unchanged.
\<close>

theorem assertion_failure_logged_and_reraised:
  assumes "ordering_body fromisoformat transactions = Inl (AssertionError e)"
  shows "validate_transaction_ordering fromisoformat (log'\<lparr>stdout := out\<rparr>) transactions =
           (Inl (AssertionError e),
            log'\<lparr>stdout := out @ [cross_mark @ '' Assertion failed '' @ e]\<rparr>,
            transactions)"
  using assms by (simp add: validate_transaction_ordering_def log_error_custom)

theorem assertion_failure_logged_and_reraised_witness:
  "ordering_body sample_fromisoformat
     [sample_entry ''Booked'' ''2025-06-05T08:30:00Z'',
      sample_entry ''Pending'' ''2025-06-04T10:00:00Z''] = Inl (AssertionError []) \<and>
   validate_transaction_ordering sample_fromisoformat (log'\<lparr>stdout := []\<rparr>)
     [sample_entry ''Booked'' ''2025-06-05T08:30:00Z'',
      sample_entry ''Pending'' ''2025-06-04T10:00:00Z''] =
     (Inl (AssertionError []),
      log'\<lparr>stdout := [cross_mark @ '' Assertion failed '']\<rparr>,
      [sample_entry ''Booked'' ''2025-06-05T08:30:00Z'',
       sample_entry ''Pending'' ''2025-06-04T10:00:00Z''])"
proof -
  have h: "ordering_body sample_fromisoformat
     [sample_entry ''Booked'' ''2025-06-05T08:30:00Z'',
      sample_entry ''Pending'' ''2025-06-04T10:00:00Z''] = Inl (AssertionError [])"
    by (simp add: ordering_body_def bind_def sample_entry_def subscript_def)
  from assertion_failure_logged_and_reraised [OF h, of "[]"] h show ?thesis by simp
qed

text \<open>
  C9. Two elements of the same status, the first with a timestamp string the parser
  rejects after the replacement: the call raises \<^verbatim>\<open>ValueError\<close>, which is not an assertion
  failure, and the logger has written nothing.
\<close>

theorem parse_error_bypasses_handler:
  assumes "st = ''Pending'' \<or> st = ''Booked''"
    and "subscript a ''status'' = Inr (PStr st)"
    and "subscript b ''status'' = Inr (PStr st)"
    and "subscript a ''timestamp'' = Inr (PStr s)"
    and "fromisoformat (str_replace CHR ''Z'' ''+00:00'' s) = None"
  shows "validate_transaction_ordering fromisoformat lg [a, b] = (Inl ValueError, lg, [a, b])"
proof -
  have "ordering_body fromisoformat [a, b] = Inl ValueError"
    using assms
    by (auto simp: ordering_body_def bind_def parse_timestamp_def)
  then show ?thesis by (simp add: validate_transaction_ordering_def)
qed

theorem parse_error_bypasses_handler_witness:
  "sample_fromisoformat (str_replace CHR ''Z'' ''+00:00'' ''yesterdayZ'') = None \<and>
   validate_transaction_ordering sample_fromisoformat log'
     [sample_entry ''Booked'' ''yesterdayZ'', sample_entry ''Booked'' ''2025-06-04T10:00:00Z''] =
     (Inl ValueError, log',
      [sample_entry ''Booked'' ''yesterdayZ'', sample_entry ''Booked'' ''2025-06-04T10:00:00Z''])"
proof -
  have st: "''Booked'' = ''Pending'' \<or> ''Booked'' = ''Booked''" by simp
  have a: "subscript (sample_entry ''Booked'' ''yesterdayZ'') ''status'' = Inr (PStr ''Booked'')"
    by (simp add: sample_entry_def subscript_def)
  have b: "subscript (sample_entry ''Booked'' ''2025-06-04T10:00:00Z'') ''status'' =
             Inr (PStr ''Booked'')"
    by (simp add: sample_entry_def subscript_def)
  have ts: "subscript (sample_entry ''Booked'' ''yesterdayZ'') ''timestamp'' =
              Inr (PStr ''yesterdayZ'')"
    by (simp add: sample_entry_def subscript_def)
  have p: "sample_fromisoformat (str_replace CHR ''Z'' ''+00:00'' ''yesterdayZ'') = None"
    by (simp add: sample_fromisoformat_def)
  from parse_error_bypasses_handler [where fromisoformat = sample_fromisoformat and lg = log', OF st a b ts p] p
  show ?thesis by simp
qed


end
